theory Spec2Isabelle
  imports Main
begin

section \<open>Objects, streams and wiring\<close>

text \<open>
  The transport in \<^verbatim>\<open>lib/index.js\<close> is event driven: every function of the file is
  either called by the user (\<^verbatim>\<open>connect\<close>, \<^verbatim>\<open>listen\<close>, \<^verbatim>\<open>disconnect\<close>, \<^verbatim>\<open>close\<close>) or
  registered as a handler that the collaborators (reconnect-net, net, the sockets) run
  when they emit an event. JavaScript runs each handler to completion, so a handler is a
  function from the state before it to the state after it, and a run of the program is a
  list of events folded over the state.

  Objects are compared by identity in JavaScript (\<^verbatim>\<open>indexOf\<close> uses \<^verbatim>\<open>===\<close>); an object is
  modelled by a number standing for its identity. Streams created by the transport itself
  (\<^verbatim>\<open>rpc()\<close>, \<^verbatim>\<open>MsgPack.createEncodeStream()\<close>, \<^verbatim>\<open>MsgPack.createDecodeStream()\<close>) take their
  identity from an allocation counter; sockets are handed in by the collaborators.
\<close>

type_synonym obj = nat

datatype stream = Socket obj | RpcStream obj | EncodeStream obj | DecodeStream obj

text \<open>What \<^verbatim>\<open>a.pipe(b)\<close> leaves behind is the edge from \<open>a\<close> to \<open>b\<close>.\<close>

record wiring =
  pipes :: "(stream \<times> stream) list"
  next_obj :: obj

definition alloc :: "'a wiring_scheme \<Rightarrow> obj \<times> 'a wiring_scheme" where
  "alloc s = (next_obj s, s\<lparr>next_obj := Suc (next_obj s)\<rparr>)"

definition pipe :: "stream \<Rightarrow> stream \<Rightarrow> 'a wiring_scheme \<Rightarrow> 'a wiring_scheme" where
  "pipe a b s = s\<lparr>pipes := pipes s @ [(a, b)]\<rparr>"

definition streams_of :: "(stream \<times> stream) list \<Rightarrow> stream set" where
  "streams_of ps = set (map fst ps) \<union> set (map snd ps)"

text \<open>
  \<^verbatim>\<open>remote.wrap(remoteMethods)\<close> of rpc-stream: an object with one method per name, bound
  to the multiplexer it was wrapped from.
\<close>

record client_proxy =
  proxy_remote :: obj
  proxy_methods :: "string list"

definition wrap :: "obj \<Rightarrow> string list \<Rightarrow> client_proxy" where
  "wrap remote methods = \<lparr>proxy_remote = remote, proxy_methods = methods\<rparr>"

datatype jsval = Undefined | ErrorVal string | ClientVal client_proxy

text \<open>An argument that was not passed reads as \<^verbatim>\<open>undefined\<close>.\<close>

definition arg :: "nat \<Rightarrow> jsval list \<Rightarrow> jsval" where
  "arg i args = (if i < length args then args ! i else Undefined)"

text \<open>
  Both \<^verbatim>\<open>connect\<close> and \<^verbatim>\<open>listen\<close> hand their port to net from their own body
  (\<^verbatim>\<open>reconnect().connect(port, hostname)\<close>, \<^verbatim>\<open>netServer.listen(port, hostname, ...)\<close>). net
  checks the port in that very call: a port outside \<open>0..65535\<close> is thrown as a
  \<^verbatim>\<open>RangeError\<close>, and since neither function catches it, the function leaves by that
  exception at that statement.
\<close>

datatype error = RangeError int

definition valid_port :: "int \<Rightarrow> bool" where
  "valid_port port \<longleftrightarrow> 0 \<le> port \<and> port \<le> 65535"

section \<open>The connector: \<^verbatim>\<open>connect(remoteMethods, hostname, port)\<close>\<close>

text \<open>
  The calls the connector makes on the reconnect collaborator \<open>r\<close>, in order. What \<open>r\<close>
  does with them is not part of this repository.
\<close>

datatype r_call = R_start int string | R_on string | R_stop

text \<open>
  One emission of the handle \<open>ee\<close>: the event name, the arguments, and what a listener
  reads on the handle while it runs (\<^verbatim>\<open>emit\<close> calls the listeners synchronously).
\<close>

record emission =
  em_name :: string
  em_args :: "jsval list"
  em_connected :: bool
  em_client :: "client_proxy option"

record connector = wiring +
  remoteMethods :: "string list"
  r_calls :: "r_call list"
  ee_connected :: bool
  ee_client :: "client_proxy option"
  ee_emitted :: "emission list"

definition emit :: "string \<Rightarrow> jsval list \<Rightarrow> connector \<Rightarrow> connector" where
  "emit name args s =
     s\<lparr>ee_emitted := ee_emitted s @
          [\<lparr>em_name = name, em_args = args,
            em_connected = ee_connected s, em_client = ee_client s\<rparr>]\<rparr>"

definition onConnect :: "obj \<Rightarrow> connector \<Rightarrow> connector" where
  "onConnect con s0 =
     (let (remote, s1) = alloc s0;
          (enc, s2) = alloc s1;
          s3 = pipe (RpcStream remote) (EncodeStream enc) s2;
          s4 = pipe (EncodeStream enc) (Socket con) s3;
          (dec, s5) = alloc s4;
          s6 = pipe (Socket con) (DecodeStream dec) s5;
          s7 = pipe (DecodeStream dec) (RpcStream remote) s6;
          client = wrap remote (remoteMethods s7);
          s8 = s7\<lparr>ee_connected := True\<rparr>;
          s9 = s8\<lparr>ee_client := Some client\<rparr>
      in emit ''connect'' [ClientVal client] s9)"

definition onReconnect :: "connector \<Rightarrow> connector" where
  "onReconnect s = emit ''reconnect'' [] s"

definition onDisconnect :: "connector \<Rightarrow> connector" where
  "onDisconnect s = emit ''disconnect'' [] (s\<lparr>ee_connected := False\<rparr>)"

definition disconnect :: "connector \<Rightarrow> connector" where
  "disconnect s = s\<lparr>r_calls := r_calls s @ [R_stop]\<rparr>"

text \<open>
  The first statement of \<^verbatim>\<open>connect\<close> starts the collaborator on \<open>(port, hostname)\<close>; when
  that call throws, nothing else of \<^verbatim>\<open>connect\<close> runs: no handle is created, no handler
  registered, nothing returned. Otherwise \<^verbatim>\<open>connect\<close> creates the handle with
  \<^verbatim>\<open>connected = false\<close> (\<^verbatim>\<open>client\<close> is not assigned: absent), registers the three handlers
  and returns the handle. Nothing in its body inspects \<open>remoteMethods\<close> or \<open>hostname\<close>.
\<close>

definition connect :: "string list \<Rightarrow> string \<Rightarrow> int \<Rightarrow> error + connector" where
  "connect methods hostname port =
     (if \<not> valid_port port then Inl (RangeError port)
      else Inr
        \<lparr>pipes = [], next_obj = 0,
         remoteMethods = methods,
         r_calls = [R_start port hostname, R_on ''connect'', R_on ''reconnect'',
                    R_on ''disconnect''],
         ee_connected = False,
         ee_client = None,
         ee_emitted = []\<rparr>)"

text \<open>
  What can happen to a connector after \<^verbatim>\<open>connect\<close> returned: \<open>r\<close> emits one of the three
  events the handlers are registered for, or the user calls \<^verbatim>\<open>ee.disconnect()\<close>.
\<close>

datatype c_event = R_connect obj | R_reconnect | R_disconnect | Call_disconnect

fun connector_step :: "c_event \<Rightarrow> connector \<Rightarrow> connector" where
  "connector_step (R_connect con) s = onConnect con s"
| "connector_step R_reconnect s = onReconnect s"
| "connector_step R_disconnect s = onDisconnect s"
| "connector_step Call_disconnect s = disconnect s"

definition connector_run :: "c_event list \<Rightarrow> connector \<Rightarrow> connector" where
  "connector_run evs s = foldl (\<lambda>t e. connector_step e t) s evs"

text \<open>The client proxies handed to listeners so far.\<close>

definition delivered :: "connector \<Rightarrow> jsval set" where
  "delivered s = set (concat (map em_args (ee_emitted s)))"

section \<open>The listener: \<^verbatim>\<open>listen(port, hostname, server, callback)\<close>\<close>

text \<open>
  The calls the listener makes on the net server and on the accepted sockets, and the
  events it can be given: the net server emits \<^verbatim>\<open>listening\<close>, \<^verbatim>\<open>error\<close>, \<^verbatim>\<open>connection\<close>
  or \<^verbatim>\<open>close\<close>, an accepted socket emits \<^verbatim>\<open>close\<close>, or the user calls
  \<^verbatim>\<open>netServer.close(cb)\<close> (the flag says whether \<open>cb\<close> was passed). The history keeps
  both in the order they happened.
\<close>

datatype net_call = Net_listen int string | Net_close bool | Socket_end obj

datatype l_event =
  Listening | Error_event string | Connection obj | Socket_closed obj | Server_closed |
  Call_close bool

datatype l_entry = Occurred l_event | Did net_call

record listener = wiring +
  server_obj :: obj
  services :: "(obj \<times> obj) list"
  connections :: "obj list"
  close_once :: "obj list"
  error_once :: bool
  listening_once :: bool
  cb_called :: bool
  cb_calls :: "jsval list list"
  uncaught :: "string list"
  history :: "l_entry list"

definition did :: "net_call \<Rightarrow> listener \<Rightarrow> listener" where
  "did c s = s\<lparr>history := history s @ [Did c]\<rparr>"

text \<open>
  \<^verbatim>\<open>callback = once(callback)\<close>: the wrapper of the once package runs the user's function
  on its first call only. \<open>cb_calls\<close> lists the argument lists the user's function was
  run with.
\<close>

definition callback :: "jsval list \<Rightarrow> listener \<Rightarrow> listener" where
  "callback args s =
     (if cb_called s then s
      else s\<lparr>cb_called := True, cb_calls := cb_calls s @ [args]\<rparr>)"

text \<open>
  \<^verbatim>\<open>Array.prototype.indexOf\<close>: the first index holding the element, or \<open>-1\<close>.
  \<^verbatim>\<open>Array.prototype.splice(start, 1)\<close>: a negative start counts from the end of the array,
  the start is clamped to the array, and the element there (if any) is removed.
\<close>

fun indexOf :: "'a list \<Rightarrow> 'a \<Rightarrow> int" where
  "indexOf [] x = -1"
| "indexOf (y # ys) x =
     (if y = x then 0 else (let i = indexOf ys x in if i < 0 then -1 else i + 1))"

definition splice1 :: "int \<Rightarrow> 'a list \<Rightarrow> 'a list" where
  "splice1 start xs =
     (let n = int (length xs);
          k = (if start < 0 then max (n + start) 0 else min start n)
      in take (nat k) xs @ drop (Suc (nat k)) xs)"

definition rpcConnectionClosed :: "obj \<Rightarrow> listener \<Rightarrow> listener" where
  "rpcConnectionClosed con s =
     (let idx = indexOf (connections s) con
      in if idx \<ge> 0 then s\<lparr>connections := splice1 idx (connections s)\<rparr> else s)"

definition onConnection :: "obj \<Rightarrow> listener \<Rightarrow> listener" where
  "onConnection con s0 =
     (let s1 = s0\<lparr>connections := connections s0 @ [con]\<rparr>;
          (service, s2) = alloc s1;
          s3 = s2\<lparr>services := services s2 @ [(service, server_obj s2)]\<rparr>;
          (dec, s4) = alloc s3;
          s5 = pipe (Socket con) (DecodeStream dec) s4;
          s6 = pipe (DecodeStream dec) (RpcStream service) s5;
          (enc, s7) = alloc s6;
          s8 = pipe (RpcStream service) (EncodeStream enc) s7;
          s9 = pipe (EncodeStream enc) (Socket con) s8
      in s9\<lparr>close_once := close_once s9 @ [con]\<rparr>)"

definition onceListening :: "listener \<Rightarrow> listener" where
  "onceListening s = callback [] (s\<lparr>error_once := False\<rparr>)"

text \<open>
  \<^verbatim>\<open>netServer.close = function close(cb)\<close>: the original \<^verbatim>\<open>close\<close> is called with \<open>cb\<close>, then
  \<^verbatim>\<open>forEach\<close> calls \<^verbatim>\<open>con.end()\<close> on every element of \<^verbatim>\<open>__connections\<close>, in order.
\<close>

definition close :: "bool \<Rightarrow> listener \<Rightarrow> listener" where
  "close cb s =
     (let s1 = did (Net_close cb) s
      in fold (\<lambda>con t. did (Socket_end con) t) (connections s1) s1)"

text \<open>
  \<^verbatim>\<open>listen\<close> creates the net server and its empty pool, then calls
  \<^verbatim>\<open>netServer.listen(port, hostname, onceListening)\<close>. When that call throws, \<^verbatim>\<open>listen\<close>
  leaves before \<^verbatim>\<open>netServer.once('error', callback)\<close> is reached: the callback is never
  run and no server is returned. Otherwise the error listener is registered, \<^verbatim>\<open>close\<close> is
  replaced and the net server returned.
\<close>

definition listen :: "int \<Rightarrow> string \<Rightarrow> obj \<Rightarrow> error + listener" where
  "listen port hostname server =
     (if \<not> valid_port port then Inl (RangeError port)
      else Inr
        \<lparr>pipes = [], next_obj = 0,
         server_obj = server,
         services = [],
         connections = [],
         close_once = [],
         error_once = True,
         listening_once = True,
         cb_called = False,
         cb_calls = [],
         uncaught = [],
         history = [Did (Net_listen port hostname)]\<rparr>)"

text \<open>
  How the events reach the handlers. \<^verbatim>\<open>netServer.listen(port, hostname, onceListening)\<close>
  and \<^verbatim>\<open>netServer.once('error', callback)\<close> register one-time listeners; a one-time
  listener is removed before it runs. \<^verbatim>\<open>net.createServer(onConnection)\<close> registers
  \<^verbatim>\<open>onConnection\<close> for every \<^verbatim>\<open>connection\<close>. An \<^verbatim>\<open>error\<close> event that finds no listener is
  thrown by the emitter. Each \<^verbatim>\<open>con.once('close', rpcConnectionClosed)\<close> is one entry of
  \<open>close_once\<close>; when the socket emits \<^verbatim>\<open>close\<close>, its entries are removed and the
  handler runs once for each of them.
\<close>

definition socket_closed :: "obj \<Rightarrow> listener \<Rightarrow> listener" where
  "socket_closed con s =
     (let n = count_list (close_once s) con;
          s1 = s\<lparr>close_once := removeAll con (close_once s)\<rparr>
      in (rpcConnectionClosed con ^^ n) s1)"

fun dispatch :: "l_event \<Rightarrow> listener \<Rightarrow> listener" where
  "dispatch Listening s =
     (if listening_once s then onceListening (s\<lparr>listening_once := False\<rparr>) else s)"
| "dispatch (Error_event err) s =
     (if error_once s then callback [ErrorVal err] (s\<lparr>error_once := False\<rparr>)
      else s\<lparr>uncaught := uncaught s @ [err]\<rparr>)"
| "dispatch (Connection con) s = onConnection con s"
| "dispatch (Socket_closed con) s = socket_closed con s"
| "dispatch Server_closed s = s"
| "dispatch (Call_close cb) s = close cb s"

definition listener_step :: "l_event \<Rightarrow> listener \<Rightarrow> listener" where
  "listener_step e s = dispatch e (s\<lparr>history := history s @ [Occurred e]\<rparr>)"

definition listener_run :: "l_event list \<Rightarrow> listener \<Rightarrow> listener" where
  "listener_run evs s = foldl (\<lambda>t e. listener_step e t) s evs"

text \<open>
  The sockets that are open after a list of events, read off the events alone: a socket
  is open from the \<^verbatim>\<open>connection\<close> event that hands it in until it emits \<^verbatim>\<open>close\<close>.
\<close>

fun socket_track :: "l_event \<Rightarrow> obj set \<Rightarrow> obj set" where
  "socket_track (Connection con) S = insert con S"
| "socket_track (Socket_closed con) S = S - {con}"
| "socket_track _ S = S"

definition open_sockets :: "l_event list \<Rightarrow> obj set" where
  "open_sockets evs = foldl (\<lambda>S e. socket_track e S) {} evs"

text \<open>
  Every \<^verbatim>\<open>connection\<close> event hands in a socket that is not among the open ones: the net
  server creates a new socket object for each accepted connection.
\<close>

fun accepts_new :: "obj set \<Rightarrow> l_event list \<Rightarrow> bool" where
  "accepts_new S [] = True"
| "accepts_new S (Connection con # es) = (con \<notin> S \<and> accepts_new (insert con S) es)"
| "accepts_new S (e # es) = accepts_new (socket_track e S) es"

text \<open>
  A history in which every \<^verbatim>\<open>con.end()\<close> comes after the net server has emitted \<^verbatim>\<open>close\<close>.
\<close>

fun ends_after_closed :: "bool \<Rightarrow> l_entry list \<Rightarrow> bool" where
  "ends_after_closed closed [] = True"
| "ends_after_closed closed (Occurred Server_closed # es) = ends_after_closed True es"
| "ends_after_closed closed (Did (Socket_end con) # es) =
     (closed \<and> ends_after_closed closed es)"
| "ends_after_closed closed (e # es) = ends_after_closed closed es"

section \<open>Auxiliary notions for the proofs\<close>

text \<open>
  The argument lists of the emissions of one event name, in order.
\<close>

definition emitted_args :: "string \<Rightarrow> connector \<Rightarrow> jsval list list" where
  "emitted_args name s = map em_args (filter (\<lambda>e. em_name e = name) (ee_emitted s))"

fun is_R_connect :: "c_event \<Rightarrow> bool" where
  "is_R_connect (R_connect con) = True"
| "is_R_connect _ = False"

text \<open>
  Every stream the connector created, and every proxy it handed out or stored, has an
  identity below the allocation counter.
\<close>

fun below :: "obj \<Rightarrow> stream \<Rightarrow> bool" where
  "below n (Socket c) = True"
| "below n (RpcStream i) = (i < n)"
| "below n (EncodeStream i) = (i < n)"
| "below n (DecodeStream i) = (i < n)"

fun val_below :: "obj \<Rightarrow> jsval \<Rightarrow> bool" where
  "val_below n (ClientVal c) = (proxy_remote c < n)"
| "val_below n _ = True"

definition conn_inv :: "connector \<Rightarrow> bool" where
  "conn_inv s \<longleftrightarrow>
     list_all (below (next_obj s)) (map fst (pipes s) @ map snd (pipes s)) \<and>
     list_all (val_below (next_obj s)) (concat (map em_args (ee_emitted s))) \<and>
     (case ee_client s of None \<Rightarrow> True | Some c \<Rightarrow> proxy_remote c < next_obj s)"

text \<open>
  The first \<^verbatim>\<open>listening\<close> or \<^verbatim>\<open>error\<close> event of a list of events, as the argument list
  its handler passes to \<^verbatim>\<open>callback\<close>.
\<close>

fun first_outcome :: "l_event list \<Rightarrow> jsval list option" where
  "first_outcome [] = None"
| "first_outcome (Listening # es) = Some []"
| "first_outcome (Error_event err # es) = Some [ErrorVal err]"
| "first_outcome (e # es) = first_outcome es"

section \<open>The connector's handlers, field by field\<close>

lemma onConnect_pipes:
  "pipes (onConnect con s) = pipes s @
     [(RpcStream (next_obj s), EncodeStream (Suc (next_obj s))),
      (EncodeStream (Suc (next_obj s)), Socket con),
      (Socket con, DecodeStream (Suc (Suc (next_obj s)))),
      (DecodeStream (Suc (Suc (next_obj s))), RpcStream (next_obj s))]"
  by (simp add: onConnect_def alloc_def pipe_def emit_def Let_def)

lemma onConnect_next_obj: "next_obj (onConnect con s) = Suc (Suc (Suc (next_obj s)))"
  by (simp add: onConnect_def alloc_def pipe_def emit_def Let_def)

lemma onConnect_remoteMethods: "remoteMethods (onConnect con s) = remoteMethods s"
  by (simp add: onConnect_def alloc_def pipe_def emit_def Let_def)

lemma onConnect_connected: "ee_connected (onConnect con s)"
  by (simp add: onConnect_def alloc_def pipe_def emit_def Let_def)

lemma onConnect_client:
  "ee_client (onConnect con s) = Some (wrap (next_obj s) (remoteMethods s))"
  by (simp add: onConnect_def alloc_def pipe_def emit_def Let_def)

lemma onConnect_emitted:
  "ee_emitted (onConnect con s) = ee_emitted s @
     [\<lparr>em_name = ''connect'',
       em_args = [ClientVal (wrap (next_obj s) (remoteMethods s))],
       em_connected = True,
       em_client = Some (wrap (next_obj s) (remoteMethods s))\<rparr>]"
  by (simp add: onConnect_def alloc_def pipe_def emit_def Let_def)

lemma onConnect_r_calls: "r_calls (onConnect con s) = r_calls s"
  by (simp add: onConnect_def alloc_def pipe_def emit_def Let_def)

lemmas onConnect_fields = onConnect_pipes onConnect_next_obj onConnect_remoteMethods
  onConnect_connected onConnect_client onConnect_emitted onConnect_r_calls

lemma below_mono: "below n st \<Longrightarrow> n \<le> m \<Longrightarrow> below m st"
  by (cases st) auto

lemma val_below_mono: "val_below n v \<Longrightarrow> n \<le> m \<Longrightarrow> val_below m v"
  by (cases v) auto

lemma list_all_below_mono: "list_all (below n) xs \<Longrightarrow> n \<le> m \<Longrightarrow> list_all (below m) xs"
  by (induction xs) (auto intro: below_mono)

lemma list_all_val_below_mono:
  "list_all (val_below n) xs \<Longrightarrow> n \<le> m \<Longrightarrow> list_all (val_below m) xs"
  by (induction xs) (auto intro: val_below_mono)

lemma connect_returned:
  assumes "connect ms h p = Inr s0"
  shows "valid_port p" and "pipes s0 = []" and "next_obj s0 = 0" and "remoteMethods s0 = ms"
    and "r_calls s0 =
      [R_start p h, R_on ''connect'', R_on ''reconnect'', R_on ''disconnect'']"
    and "\<not> ee_connected s0" and "ee_client s0 = None" and "ee_emitted s0 = []"
  using assms by (auto simp: connect_def split: if_splits)

lemma conn_inv_connect: "connect ms h p = Inr s0 \<Longrightarrow> conn_inv s0"
  by (simp add: conn_inv_def connect_returned)

lemma conn_inv_onConnect:
  assumes "conn_inv s"
  shows "conn_inv (onConnect con s)"
proof -
  let ?n = "next_obj s"
  have le: "?n \<le> Suc (Suc (Suc ?n))" by simp
  from assms have a: "list_all (below ?n) (map fst (pipes s) @ map snd (pipes s))"
    and b: "list_all (val_below ?n) (concat (map em_args (ee_emitted s)))"
    by (simp_all add: conn_inv_def)
  have a': "list_all (below (Suc (Suc (Suc ?n)))) (map fst (pipes s) @ map snd (pipes s))"
    by (rule list_all_below_mono [OF a le])
  have b': "list_all (val_below (Suc (Suc (Suc ?n)))) (concat (map em_args (ee_emitted s)))"
    by (rule list_all_val_below_mono [OF b le])
  show ?thesis
    using a' b' by (simp add: conn_inv_def onConnect_fields wrap_def)
qed

lemma conn_inv_step: "conn_inv s \<Longrightarrow> conn_inv (connector_step e s)"
proof (cases e)
  case (R_connect con)
  assume "conn_inv s"
  then show ?thesis using R_connect by (simp add: conn_inv_onConnect)
next
  case R_reconnect
  assume "conn_inv s"
  then show ?thesis using R_reconnect
    by (simp add: conn_inv_def onReconnect_def emit_def split: option.splits)
next
  case R_disconnect
  assume "conn_inv s"
  then show ?thesis using R_disconnect
    by (simp add: conn_inv_def onDisconnect_def emit_def split: option.splits)
next
  case Call_disconnect
  assume "conn_inv s"
  then show ?thesis using Call_disconnect
    by (simp add: conn_inv_def disconnect_def split: option.splits)
qed

lemma connector_run_snoc:
  "connector_run (evs @ [e]) s = connector_step e (connector_run evs s)"
  by (simp add: connector_run_def)

lemma conn_inv_run: "conn_inv s \<Longrightarrow> conn_inv (connector_run evs s)"
  by (induction evs rule: rev_induct)
    (simp_all add: connector_run_snoc conn_inv_step, simp add: connector_run_def)

lemma remoteMethods_step: "remoteMethods (connector_step e s) = remoteMethods s"
  by (cases e) (simp_all add: onConnect_fields onReconnect_def onDisconnect_def
      disconnect_def emit_def)

lemma remoteMethods_run: "remoteMethods (connector_run evs s) = remoteMethods s"
  by (induction evs rule: rev_induct)
    (simp_all add: connector_run_snoc remoteMethods_step, simp add: connector_run_def)

lemma conn_inv_fresh_stream:
  assumes "conn_inv s" and "\<not> below (next_obj s) st"
  shows "st \<notin> streams_of (pipes s)"
  using assms by (auto simp: conn_inv_def streams_of_def list_all_iff)

lemma conn_inv_fresh_client:
  assumes "conn_inv s"
  shows "ClientVal (wrap (next_obj s) ms) \<notin> delivered s"
proof
  assume "ClientVal (wrap (next_obj s) ms) \<in> delivered s"
  with assms have "val_below (next_obj s) (ClientVal (wrap (next_obj s) ms))"
    unfolding conn_inv_def delivered_def list_all_iff by blast
  then show False by (simp add: wrap_def)
qed

lemma conn_inv_client_differs:
  assumes "conn_inv s"
  shows "ee_client s \<noteq> Some (wrap (next_obj s) ms)"
  using assms by (auto simp: conn_inv_def wrap_def)

lemma connector_step_emitted_cases:
  "ee_emitted (connector_step ev s) = ee_emitted s \<or>
   (\<exists>name. name \<noteq> ''connect'' \<and> ee_emitted (connector_step ev s) = ee_emitted s @
      [\<lparr>em_name = name, em_args = [], em_connected = ee_connected (connector_step ev s),
        em_client = ee_client s\<rparr>]) \<or>
   (\<exists>c. ee_emitted (connector_step ev s) = ee_emitted s @
      [\<lparr>em_name = ''connect'', em_args = [ClientVal c], em_connected = True,
        em_client = Some c\<rparr>])"
  by (cases ev) (simp_all add: onConnect_fields onReconnect_def onDisconnect_def
      disconnect_def emit_def)

lemma connect_emissions_run:
  assumes "connect ms h p = Inr s0"
  shows "\<forall>e \<in> set (ee_emitted (connector_run evs s0)).
     em_name e = ''connect'' \<longrightarrow>
     em_connected e \<and> (\<exists>c. em_args e = [ClientVal c] \<and> em_client e = Some c)"
proof (induction evs rule: rev_induct)
  case Nil
  show ?case by (simp add: connector_run_def connect_returned [OF assms])
next
  case (snoc ev evs)
  let ?s = "connector_run evs s0"
  from connector_step_emitted_cases [of ev ?s] snoc.IH
  show ?case
    unfolding connector_run_snoc by (elim disjE exE conjE) auto
qed

lemma never_connected_run:
  assumes "connect ms h p = Inr s0"
  shows "\<not> list_ex is_R_connect evs \<Longrightarrow> \<not> ee_connected (connector_run evs s0)"
proof (induction evs rule: rev_induct)
  case Nil
  show ?case by (simp add: connector_run_def connect_returned [OF assms])
next
  case (snoc ev evs)
  then have IH: "\<not> ee_connected (connector_run evs s0)"
    and ev: "\<not> is_R_connect ev" by simp_all
  from ev IH show ?case
    unfolding connector_run_snoc
    by (cases ev) (simp_all add: onReconnect_def onDisconnect_def disconnect_def emit_def)
qed



section \<open>Claims about the connector\<close>

text \<open>
  C1. Every \<^verbatim>\<open>connect\<close> event of the reconnect collaborator (a successful underlying
  connection, at any point of any run that started with a \<^verbatim>\<open>connect\<close> that returned its
  handle) runs \<^verbatim>\<open>onConnect\<close>, which builds wiring that did not exist before: a
  multiplexer, an encode stage and a decode stage that occur in no earlier pipe, piped
  multiplexer to encoder to socket and socket to decoder to multiplexer. The client proxy
  is the wrap of the declared method names on that multiplexer and was never delivered
  before; the handle's \<^verbatim>\<open>connected\<close> becomes true, its \<^verbatim>\<open>client\<close> becomes that proxy, and
  a \<^verbatim>\<open>connect\<close> event is emitted whose only argument is that proxy.
\<close>

theorem connect_event_wires_fresh_client:
  assumes "connect ms h p = Inr s0"
  shows "let s = connector_run evs s0;
       s' = connector_step (R_connect con) s;
       remote = next_obj s; enc = Suc remote; dec = Suc enc;
       client = wrap remote ms
   in RpcStream remote \<notin> streams_of (pipes s) \<and>
      EncodeStream enc \<notin> streams_of (pipes s) \<and>
      DecodeStream dec \<notin> streams_of (pipes s) \<and>
      pipes s' = pipes s @
        [(RpcStream remote, EncodeStream enc), (EncodeStream enc, Socket con),
         (Socket con, DecodeStream dec), (DecodeStream dec, RpcStream remote)] \<and>
      ClientVal client \<notin> delivered s \<and>
      ee_connected s' \<and>
      ee_client s' = Some client \<and>
      ee_emitted s' = ee_emitted s @
        [\<lparr>em_name = ''connect'', em_args = [ClientVal client],
          em_connected = True, em_client = Some client\<rparr>]"
proof -
  define s where "s = connector_run evs s0"
  have inv: "conn_inv s"
    unfolding s_def by (rule conn_inv_run [OF conn_inv_connect [OF assms]])
  have ms: "remoteMethods s = ms"
    unfolding s_def by (simp add: remoteMethods_run connect_returned [OF assms])
  have f1: "RpcStream (next_obj s) \<notin> streams_of (pipes s)"
    by (rule conn_inv_fresh_stream [OF inv]) simp
  have f2: "EncodeStream (Suc (next_obj s)) \<notin> streams_of (pipes s)"
    by (rule conn_inv_fresh_stream [OF inv]) simp
  have f3: "DecodeStream (Suc (Suc (next_obj s))) \<notin> streams_of (pipes s)"
    by (rule conn_inv_fresh_stream [OF inv]) simp
  have f4: "ClientVal (wrap (next_obj s) ms) \<notin> delivered s"
    by (rule conn_inv_fresh_client [OF inv])
  show ?thesis
    unfolding Let_def s_def [symmetric]
    using f1 f2 f3 f4 by (simp add: onConnect_fields ms)
qed

theorem connect_event_witness:
  "case connect [''ping'', ''pong''] ''10.0.0.1'' 3212 of
     Inl e \<Rightarrow> False
   | Inr s0 \<Rightarrow>
       pipes (connector_step (R_connect 8) (connector_run [R_connect 7, R_disconnect] s0)) =
         [(RpcStream 0, EncodeStream 1), (EncodeStream 1, Socket 7),
          (Socket 7, DecodeStream 2), (DecodeStream 2, RpcStream 0),
          (RpcStream 3, EncodeStream 4), (EncodeStream 4, Socket 8),
          (Socket 8, DecodeStream 5), (DecodeStream 5, RpcStream 3)] \<and>
       ee_connected (connector_step (R_connect 8)
         (connector_run [R_connect 7, R_disconnect] s0)) \<and>
       ee_client (connector_step (R_connect 8)
         (connector_run [R_connect 7, R_disconnect] s0)) =
         Some (wrap 3 [''ping'', ''pong''])"
proof -
  obtain s0 where c: "connect [''ping'', ''pong''] ''10.0.0.1'' 3212 = Inr s0"
    by (simp add: connect_def valid_port_def)
  have n: "next_obj (connector_run [R_connect 7, R_disconnect] s0) = 3"
    and ps: "pipes (connector_run [R_connect 7, R_disconnect] s0) =
      [(RpcStream 0, EncodeStream 1), (EncodeStream 1, Socket 7),
       (Socket 7, DecodeStream 2), (DecodeStream 2, RpcStream 0)]"
    by (simp_all add: connector_run_def onConnect_fields onDisconnect_def emit_def
        connect_returned [OF c] numeral_3_eq_3)
  let ?s = "connector_run [R_connect 7, R_disconnect] s0"
  from connect_event_wires_fresh_client [OF c, of "[R_connect 7, R_disconnect]" 8]
  have "pipes (connector_step (R_connect 8) ?s) = pipes ?s @
      [(RpcStream (next_obj ?s), EncodeStream (Suc (next_obj ?s))),
       (EncodeStream (Suc (next_obj ?s)), Socket 8),
       (Socket 8, DecodeStream (Suc (Suc (next_obj ?s)))),
       (DecodeStream (Suc (Suc (next_obj ?s))), RpcStream (next_obj ?s))]"
    and "ee_connected (connector_step (R_connect 8) ?s)"
    and "ee_client (connector_step (R_connect 8) ?s) =
      Some (wrap (next_obj ?s) [''ping'', ''pong''])"
    unfolding Let_def by blast+
  then show ?thesis
    unfolding n ps by (simp add: c)
qed

text \<open>
  C4, as the specification words it, says that a link loss leaves the handle's client
  slot absent. \<^verbatim>\<open>onDisconnect\<close> assigns \<^verbatim>\<open>connected\<close> only: after one connection and one
  link loss the slot still holds the proxy of the lost connection.
\<close>

theorem link_loss_client_kept_counterexample:
  "case connect [''ping''] ''10.0.0.1'' 3212 of
     Inl e \<Rightarrow> False
   | Inr s0 \<Rightarrow>
       ee_client (connector_run [R_connect 7, R_disconnect] s0) \<noteq> None \<and>
       ee_client (connector_run [R_connect 7, R_disconnect] s0) = Some (wrap 0 [''ping''])"
  by (simp add: connect_def valid_port_def connector_run_def onConnect_fields
      onDisconnect_def emit_def)

text \<open>
  C4. On every \<^verbatim>\<open>disconnect\<close> event of the reconnect collaborator (a link loss), in any
  state, the handle's \<^verbatim>\<open>connected\<close> becomes false and a \<^verbatim>\<open>disconnect\<close> event without
  arguments is emitted; the handle's \<^verbatim>\<open>client\<close> keeps the value it had, and the pipes
  are left as they were. No event other than the collaborator's \<^verbatim>\<open>connect\<close> changes the
  handle's \<^verbatim>\<open>client\<close>, so the slot holds the proxy of the lost connection until the next
  connection replaces it.
\<close>

theorem link_loss_clears_flag_keeps_client:
  "(let s' = connector_step R_disconnect s
    in \<not> ee_connected s' \<and>
       ee_client s' = ee_client s \<and>
       ee_emitted s' = ee_emitted s @
         [\<lparr>em_name = ''disconnect'', em_args = [],
           em_connected = False, em_client = ee_client s\<rparr>] \<and>
       pipes s' = pipes s) \<and>
   (\<not> list_ex is_R_connect evs \<longrightarrow> ee_client (connector_run evs s) = ee_client s)"
proof -
  have keep: "ee_client (connector_run evs s) = ee_client s"
    if "\<not> list_ex is_R_connect evs"
    using that
  proof (induction evs rule: rev_induct)
    case Nil
    show ?case by (simp add: connector_run_def)
  next
    case (snoc ev evs)
    then have IH: "ee_client (connector_run evs s) = ee_client s"
      and ev: "\<not> is_R_connect ev" by simp_all
    from ev IH show ?case
      unfolding connector_run_snoc
      by (cases ev) (simp_all add: onReconnect_def onDisconnect_def disconnect_def emit_def)
  qed
  then show ?thesis by (simp add: onDisconnect_def emit_def)
qed

theorem link_loss_witness:
  "case connect [''ping''] ''10.0.0.1'' 3212 of
     Inl e \<Rightarrow> False
   | Inr s0 \<Rightarrow>
       ee_client (connector_run [R_disconnect, R_reconnect, Call_disconnect]
         (connector_run [R_connect 7] s0)) = Some (wrap 0 [''ping''])"
proof -
  obtain s0 where c: "connect [''ping''] ''10.0.0.1'' 3212 = Inr s0"
    by (simp add: connect_def valid_port_def)
  have none: "\<not> list_ex is_R_connect [R_disconnect, R_reconnect, Call_disconnect]"
    by simp
  have "ee_client (connector_run [R_disconnect, R_reconnect, Call_disconnect]
      (connector_run [R_connect 7] s0)) = ee_client (connector_run [R_connect 7] s0)"
    using link_loss_clears_flag_keeps_client
      [of "connector_run [R_connect 7] s0" "[R_disconnect, R_reconnect, Call_disconnect]"]
      none
    by blast
  then show ?thesis
    by (simp add: c connector_run_def [of "[R_connect 7]"] onConnect_fields
        connect_returned [OF c])
qed

text \<open>
  C5, as the specification words it, has the new client proxy arrive with the
  \<^verbatim>\<open>reconnect\<close> event. \<^verbatim>\<open>onReconnect\<close> emits \<^verbatim>\<open>reconnect\<close> without arguments; the proxy of
  the reestablished connection arrives with a second \<^verbatim>\<open>connect\<close> event.
\<close>

theorem reconnect_event_counterexample:
  "case connect [''ping''] ''10.0.0.1'' 3212 of
     Inl e \<Rightarrow> False
   | Inr s0 \<Rightarrow>
       emitted_args ''reconnect''
         (connector_run [R_connect 7, R_disconnect, R_reconnect, R_connect 8] s0) = [[]] \<and>
       emitted_args ''connect''
         (connector_run [R_connect 7, R_disconnect, R_reconnect, R_connect 8] s0) =
         [[ClientVal (wrap 0 [''ping''])], [ClientVal (wrap 3 [''ping''])]] \<and>
       ClientVal (wrap 3 [''ping'']) \<notin> set (concat (emitted_args ''reconnect''
         (connector_run [R_connect 7, R_disconnect, R_reconnect, R_connect 8] s0)))"
  by (simp add: connect_def valid_port_def connector_run_def onConnect_fields
      onDisconnect_def onReconnect_def emit_def emitted_args_def numeral_3_eq_3)

text \<open>
  C5. In any state reached from a \<^verbatim>\<open>connect\<close> that returned its handle, and in which the
  handle is connected, a link loss followed by a reestablishment (the collaborator's
  \<^verbatim>\<open>disconnect\<close>, \<^verbatim>\<open>reconnect\<close> and \<^verbatim>\<open>connect\<close> events) takes \<^verbatim>\<open>connected\<close> from true to
  false and back to true. The \<^verbatim>\<open>reconnect\<close> event is emitted without arguments, while
  \<^verbatim>\<open>connected\<close> is still false. The new client proxy is bound to a new multiplexer,
  differs from the stored one, was never delivered before, becomes the handle's
  \<^verbatim>\<open>client\<close> and is delivered as the argument of a further \<^verbatim>\<open>connect\<close> event.
\<close>

theorem reestablished_client_comes_with_connect:
  assumes "connect ms h p = Inr s0" and "s = connector_run evs s0" and "ee_connected s"
  shows "let s1 = connector_step R_disconnect s;
             s2 = connector_step R_reconnect s1;
             s3 = connector_step (R_connect con) s2;
             client = wrap (next_obj s) ms
         in ee_connected s \<and> \<not> ee_connected s1 \<and> \<not> ee_connected s2 \<and> ee_connected s3 \<and>
            ee_client s3 = Some client \<and>
            ee_client s \<noteq> Some client \<and>
            ClientVal client \<notin> delivered s \<and>
            ee_emitted s3 = ee_emitted s @
              [\<lparr>em_name = ''disconnect'', em_args = [],
                em_connected = False, em_client = ee_client s\<rparr>,
               \<lparr>em_name = ''reconnect'', em_args = [],
                em_connected = False, em_client = ee_client s\<rparr>,
               \<lparr>em_name = ''connect'', em_args = [ClientVal client],
                em_connected = True, em_client = Some client\<rparr>]"
proof -
  have inv: "conn_inv s"
    unfolding assms(2) by (rule conn_inv_run [OF conn_inv_connect [OF assms(1)]])
  have ms: "remoteMethods s = ms"
    unfolding assms(2) by (simp add: remoteMethods_run connect_returned [OF assms(1)])
  have f1: "ee_client s \<noteq> Some (wrap (next_obj s) ms)"
    by (rule conn_inv_client_differs [OF inv])
  have f2: "ClientVal (wrap (next_obj s) ms) \<notin> delivered s"
    by (rule conn_inv_fresh_client [OF inv])
  show ?thesis
    using f1 f2 assms(3)
    by (simp add: Let_def onConnect_fields onDisconnect_def onReconnect_def emit_def ms)
qed

theorem reestablished_client_witness:
  "case connect [''ping''] ''10.0.0.1'' 3212 of
     Inl e \<Rightarrow> False
   | Inr s0 \<Rightarrow>
       ee_client
         (connector_run [R_connect 7, R_disconnect, R_reconnect, R_connect 8] s0) =
         Some (wrap 3 [''ping'']) \<and>
       ee_connected
         (connector_run [R_connect 7, R_disconnect, R_reconnect, R_connect 8] s0) \<and>
       \<not> ee_connected (connector_run [R_connect 7, R_disconnect, R_reconnect] s0) \<and>
       ee_connected (connector_run [R_connect 7] s0)"
proof -
  obtain s0 where c: "connect [''ping''] ''10.0.0.1'' 3212 = Inr s0"
    by (simp add: connect_def valid_port_def)
  have run: "connector_run [R_connect 7] s0 = connector_run [R_connect 7] s0"
    by (rule refl)
  have up: "ee_connected (connector_run [R_connect 7] s0)"
    by (simp add: connector_run_def onConnect_fields)
  show ?thesis
    using reestablished_client_comes_with_connect [OF c run up, of 8]
    by (simp add: c Let_def connector_run_def connect_returned [OF c] onConnect_fields
        onDisconnect_def onReconnect_def emit_def numeral_3_eq_3)
qed




text \<open>
  C10. In every run that started with a \<^verbatim>\<open>connect\<close> that returned its handle, whenever a
  \<^verbatim>\<open>connect\<close> event is emitted on the handle, a listener reads \<^verbatim>\<open>connected\<close> as true and
  reads as \<^verbatim>\<open>client\<close> the very proxy it is passed as its only argument: both fields are
  assigned before the emission. As long as the collaborator has emitted no \<^verbatim>\<open>connect\<close>
  (in particular right after \<^verbatim>\<open>connect\<close> returned), \<^verbatim>\<open>connected\<close> is false.
\<close>

theorem connect_listener_reads_live_handle:
  assumes "connect ms h p = Inr s0"
  shows "(\<forall>e \<in> set (ee_emitted (connector_run evs s0)).
      em_name e = ''connect'' \<longrightarrow>
      em_connected e \<and> (\<exists>c. em_args e = [ClientVal c] \<and> em_client e = Some c)) \<and>
   (\<not> list_ex is_R_connect evs \<longrightarrow> \<not> ee_connected (connector_run evs s0))"
  using connect_emissions_run [OF assms] never_connected_run [OF assms] by blast

theorem connect_listener_witness:
  "case connect [''ping''] ''10.0.0.1'' 3212 of
     Inl e \<Rightarrow> False
   | Inr s0 \<Rightarrow>
       em_connected (last (ee_emitted (connector_run [R_reconnect, R_connect 7] s0))) \<and>
       em_args (last (ee_emitted (connector_run [R_reconnect, R_connect 7] s0))) =
         [ClientVal (wrap 0 [''ping''])] \<and>
       em_client (last (ee_emitted (connector_run [R_reconnect, R_connect 7] s0))) =
         Some (wrap 0 [''ping'']) \<and>
       \<not> ee_connected (connector_run [R_reconnect, R_disconnect, Call_disconnect] s0)"
proof -
  obtain s0 where c: "connect [''ping''] ''10.0.0.1'' 3212 = Inr s0"
    by (simp add: connect_def valid_port_def)
  let ?s = "connector_run [R_reconnect, R_connect 7] s0"
  let ?e = "last (ee_emitted ?s)"
  have emitted: "ee_emitted ?s =
      [\<lparr>em_name = ''reconnect'', em_args = [], em_connected = False, em_client = None\<rparr>,
       \<lparr>em_name = ''connect'', em_args = [ClientVal (wrap 0 [''ping''])],
        em_connected = True, em_client = Some (wrap 0 [''ping''])\<rparr>]"
    by (simp add: connector_run_def connect_returned [OF c] onConnect_fields
        onReconnect_def emit_def)
  have mem: "?e \<in> set (ee_emitted ?s)" and name: "em_name ?e = ''connect''"
    by (simp_all add: emitted)
  have none: "\<not> list_ex is_R_connect [R_reconnect, R_disconnect, Call_disconnect]"
    by simp
  from connect_listener_reads_live_handle [OF c, of "[R_reconnect, R_connect 7]"] mem name
  have "em_connected ?e \<and> (\<exists>c. em_args ?e = [ClientVal c] \<and> em_client ?e = Some c)"
    by blast
  moreover from connect_listener_reads_live_handle
    [OF c, of "[R_reconnect, R_disconnect, Call_disconnect]"] none
  have "\<not> ee_connected (connector_run [R_reconnect, R_disconnect, Call_disconnect] s0)"
    by blast
  ultimately show ?thesis by (simp add: c emitted)
qed

section \<open>The listener's handlers, field by field\<close>

lemma indexOf_neg_iff: "indexOf xs x < 0 \<longleftrightarrow> x \<notin> set xs"
  by (induction xs) (auto simp: Let_def)

lemma indexOf_lower: "- 1 \<le> indexOf xs x"
  by (induction xs) (auto simp: Let_def)

lemma splice1_Cons_0: "splice1 0 (y # ys) = ys"
  by (simp add: splice1_def)

lemma splice1_Cons_Suc: "0 \<le> i \<Longrightarrow> splice1 (i + 1) (y # ys) = y # splice1 i ys"
  by (simp add: splice1_def Let_def nat_add_distrib min_def)

lemma splice1_indexOf: "x \<in> set xs \<Longrightarrow> splice1 (indexOf xs x) xs = remove1 x xs"
proof (induction xs)
  case Nil
  then show ?case by simp
next
  case (Cons y ys)
  show ?case
  proof (cases "y = x")
    case True
    then show ?thesis by (simp add: splice1_Cons_0)
  next
    case False
    with Cons.prems have mem: "x \<in> set ys" by simp
    then have nonneg: "0 \<le> indexOf ys x"
      using indexOf_neg_iff [of ys x] by simp
    from False nonneg have "indexOf (y # ys) x = indexOf ys x + 1"
      by (simp add: Let_def)
    with False nonneg Cons.IH [OF mem] show ?thesis
      by (simp add: splice1_Cons_Suc)
  qed
qed

lemma rpcConnectionClosed_remove1:
  "rpcConnectionClosed con s = s\<lparr>connections := remove1 con (connections s)\<rparr>"
proof (cases "con \<in> set (connections s)")
  case True
  then have "0 \<le> indexOf (connections s) con"
    using indexOf_neg_iff [of "connections s" con] by simp
  with True show ?thesis
    by (simp add: rpcConnectionClosed_def Let_def splice1_indexOf)
next
  case False
  then have "indexOf (connections s) con < 0" by (simp add: indexOf_neg_iff)
  with False show ?thesis
    by (simp add: rpcConnectionClosed_def Let_def remove1_idem)
qed

lemma rpcConnectionClosed_funpow:
  "(rpcConnectionClosed con ^^ n) s = s\<lparr>connections := (remove1 con ^^ n) (connections s)\<rparr>"
  by (induction n) (simp_all add: rpcConnectionClosed_remove1)

lemma remove1_funpow_removeAll:
  "count_list xs x \<le> n \<Longrightarrow> (remove1 x ^^ n) xs = removeAll x xs"
proof (induction xs arbitrary: n)
  case Nil
  show ?case by (induction n) simp_all
next
  case (Cons y ys)
  show ?case
  proof (cases "y = x")
    case True
    with Cons.prems obtain m where n: "n = Suc m" and m: "count_list ys x \<le> m"
      by (cases n) auto
    have "(remove1 x ^^ Suc m) (y # ys) = (remove1 x ^^ m) (remove1 x (y # ys))"
      by (simp only: funpow_Suc_right o_apply)
    with True n Cons.IH [OF m] show ?thesis by simp
  next
    case False
    have step: "(remove1 x ^^ k) (y # ys) = y # (remove1 x ^^ k) ys" for k
      using False by (induction k) simp_all
    from False Cons.prems have "count_list ys x \<le> n" by simp
    with False Cons.IH step show ?thesis by simp
  qed
qed

lemma socket_closed_registered:
  assumes "close_once s = connections s"
  shows "socket_closed con s =
    s\<lparr>close_once := removeAll con (close_once s),
      connections := removeAll con (connections s)\<rparr>"
  using assms
  by (simp add: socket_closed_def Let_def rpcConnectionClosed_funpow remove1_funpow_removeAll)

lemma onConnection_connections: "connections (onConnection con s) = connections s @ [con]"
  by (simp add: onConnection_def alloc_def pipe_def Let_def)

lemma onConnection_close_once: "close_once (onConnection con s) = close_once s @ [con]"
  by (simp add: onConnection_def alloc_def pipe_def Let_def)

lemma onConnection_history: "history (onConnection con s) = history s"
  by (simp add: onConnection_def alloc_def pipe_def Let_def)

lemma callback_pool:
  "connections (callback args s) = connections s" "close_once (callback args s) = close_once s"
  "history (callback args s) = history s"
  by (simp_all add: callback_def)

lemma fold_did:
  "fold (\<lambda>con t. did (Socket_end con) t) cs s =
     s\<lparr>history := history s @ map (\<lambda>con. Did (Socket_end con)) cs\<rparr>"
  by (induction cs arbitrary: s) (simp_all add: did_def)

lemma close_fields:
  "connections (close cb s) = connections s"
  "close_once (close cb s) = close_once s"
  "history (close cb s) =
     history s @ Did (Net_close cb) # map (\<lambda>con. Did (Socket_end con)) (connections s)"
  unfolding close_def Let_def fold_did by (simp_all add: did_def)

lemma listener_run_Cons: "listener_run (e # evs) s = listener_run evs (listener_step e s)"
  by (simp add: listener_run_def)

lemma listener_run_snoc: "listener_run (evs @ [e]) s = listener_step e (listener_run evs s)"
  by (simp add: listener_run_def)

lemma listener_step_pool:
  assumes "close_once s = connections s"
  shows "close_once (listener_step e s) = connections (listener_step e s)"
    and "set (connections (listener_step e s)) = socket_track e (set (connections s))"
  using assms
  by (cases e; simp add: listener_step_def onceListening_def callback_pool close_fields
      onConnection_connections onConnection_close_once socket_closed_registered)+

lemma listener_run_pool:
  "close_once s = connections s \<Longrightarrow>
   close_once (listener_run evs s) = connections (listener_run evs s) \<and>
   set (connections (listener_run evs s)) =
     foldl (\<lambda>S e. socket_track e S) (set (connections s)) evs"
proof (induction evs arbitrary: s)
  case Nil
  then show ?case by (simp add: listener_run_def)
next
  case (Cons e evs)
  from Cons.IH [OF listener_step_pool(1) [OF Cons.prems]]
  show ?case
    by (simp add: listener_run_Cons listener_step_pool(2) [OF Cons.prems])
qed

lemma listener_step_distinct:
  assumes "close_once s = connections s" and "distinct (connections s)"
    and "accepts_new (set (connections s)) (e # evs)"
  shows "distinct (connections (listener_step e s))"
    and "accepts_new (set (connections (listener_step e s))) evs"
proof -
  show "distinct (connections (listener_step e s))"
    using assms
    by (cases e) (simp_all add: listener_step_def onceListening_def callback_pool close_fields
        onConnection_connections socket_closed_registered distinct_removeAll)
  show "accepts_new (set (connections (listener_step e s))) evs"
    using assms(3) unfolding listener_step_pool(2) [OF assms(1)]
    by (cases e) simp_all
qed

lemma listener_run_distinct:
  "close_once s = connections s \<Longrightarrow> distinct (connections s) \<Longrightarrow>
   accepts_new (set (connections s)) evs \<Longrightarrow>
   distinct (connections (listener_run evs s))"
proof (induction evs arbitrary: s)
  case Nil
  then show ?case by (simp add: listener_run_def)
next
  case (Cons e evs)
  show ?case
    unfolding listener_run_Cons
    by (rule Cons.IH [OF listener_step_pool(1) [OF Cons.prems(1)]
          listener_step_distinct [OF Cons.prems]])
qed

lemma listen_returned:
  assumes "listen port hostname server = Inr s0"
  shows "valid_port port" and "connections s0 = []" and "close_once s0 = []"
    and "error_once s0" and "listening_once s0" and "\<not> cb_called s0" and "cb_calls s0 = []"
    and "history s0 = [Did (Net_listen port hostname)]"
  using assms by (auto simp: listen_def split: if_splits)

lemma listen_pool:
  assumes "listen port hostname server = Inr s0"
  shows "close_once s0 = connections s0" and "connections s0 = []"
  by (simp_all add: listen_returned [OF assms])

lemma close_record:
  "close cb s =
     s\<lparr>history := history s @ Did (Net_close cb) #
        map (\<lambda>con. Did (Socket_end con)) (connections s)\<rparr>"
  unfolding close_def Let_def fold_did by (simp add: did_def)

lemma callback_spent:
  "cb_called s \<Longrightarrow>
     cb_called (listener_step e s) \<and> cb_calls (listener_step e s) = cb_calls s"
  by (cases e) (simp_all add: listener_step_def onceListening_def callback_def
      onConnection_def alloc_def pipe_def Let_def socket_closed_def
      rpcConnectionClosed_funpow close_record)

lemma callback_spent_run:
  "cb_called s \<Longrightarrow> cb_calls (listener_run evs s) = cb_calls s"
  by (induction evs arbitrary: s) (simp_all add: listener_run_def callback_spent)

lemma callback_armed:
  assumes "\<not> cb_called s" and "listening_once s" and "error_once s"
  shows "case first_outcome [e] of
           Some args \<Rightarrow> cb_called (listener_step e s) \<and>
             cb_calls (listener_step e s) = cb_calls s @ [args]
         | None \<Rightarrow> \<not> cb_called (listener_step e s) \<and> listening_once (listener_step e s) \<and>
             error_once (listener_step e s) \<and> cb_calls (listener_step e s) = cb_calls s"
  using assms
  by (cases e) (simp_all add: listener_step_def onceListening_def callback_def
      onConnection_def alloc_def pipe_def Let_def socket_closed_def
      rpcConnectionClosed_funpow close_record)

lemma callback_run:
  "\<not> cb_called s \<Longrightarrow> listening_once s \<Longrightarrow> error_once s \<Longrightarrow>
   cb_calls (listener_run evs s) =
     cb_calls s @ (case first_outcome evs of None \<Rightarrow> [] | Some args \<Rightarrow> [args])"
proof (induction evs arbitrary: s)
  case Nil
  show ?case by (simp add: listener_run_def)
next
  case (Cons e evs)
  from callback_armed [OF Cons.prems, of e] show ?case
    by (cases e)
      (simp_all add: listener_run_Cons Cons.IH callback_spent_run)
qed

text \<open>
  When \<^verbatim>\<open>listen\<close> returned, the user's callback runs for the first \<^verbatim>\<open>listening\<close> or
  \<^verbatim>\<open>error\<close> event and for no other: not at all before one of them, once from then on,
  with the error as its only argument or with no argument.
\<close>

lemma listen_callback_fires_once:
  assumes "listen port hostname server = Inr s0"
  shows "cb_calls (listener_run evs s0) =
     (case first_outcome evs of None \<Rightarrow> [] | Some args \<Rightarrow> [args])"
  using callback_run [of s0 evs]
  by (simp add: listen_returned [OF assms])

text \<open>
  The teardown calls only forward to the collaborators: \<^verbatim>\<open>disconnect\<close> to
  \<^verbatim>\<open>r.disconnect()\<close>, \<^verbatim>\<open>close\<close> to the net server's \<^verbatim>\<open>close\<close> and to \<^verbatim>\<open>end()\<close> of the pooled
  sockets. Repeating a call repeats the forwarded calls and changes nothing else; what
  the collaborators do with a repeated call is theirs to decide.
\<close>

lemma disconnect_twice:
  "disconnect (disconnect s) = s\<lparr>r_calls := r_calls s @ [R_stop, R_stop]\<rparr>"
  by (simp add: disconnect_def)

lemma close_twice:
  "close cb' (close cb s) =
     s\<lparr>history := history s @
        (Did (Net_close cb) # map (\<lambda>con. Did (Socket_end con)) (connections s)) @
        (Did (Net_close cb') # map (\<lambda>con. Did (Socket_end con)) (connections s))\<rparr>"
  by (simp add: close_record)

lemma socket_closed_connections:
  "connections (socket_closed con s) =
     (remove1 con ^^ count_list (close_once s) con) (connections s)"
  by (simp add: socket_closed_def Let_def rpcConnectionClosed_funpow)

lemma socket_closed_close_once:
  "close_once (socket_closed con s) = removeAll con (close_once s)"
  by (simp add: socket_closed_def Let_def rpcConnectionClosed_funpow)

section \<open>Claims about the listener\<close>

text \<open>
  C2. The specification has the callback receive, on the success path, no error and the
  server handle as its second argument, and the usage example of the repository's README
  declares the callback as \<^verbatim>\<open>function serverBinded(err, server)\<close>. \<^verbatim>\<open>onceListening\<close> calls
  \<^verbatim>\<open>callback()\<close> without arguments: after \<^verbatim>\<open>listen(3212, '10.0.0.1', Server, cb)\<close> and the
  \<^verbatim>\<open>listening\<close> event the callback has run once, with an empty argument list, so its
  second argument reads as undefined.
\<close>

theorem listening_callback_without_server:
  "case listen 3212 ''10.0.0.1'' 0 of
     Inl e \<Rightarrow> False
   | Inr s0 \<Rightarrow>
       cb_calls (listener_run [Listening] s0) = [[]] \<and>
       arg 1 (hd (cb_calls (listener_run [Listening] s0))) = Undefined"
  by (simp add: listen_def valid_port_def listener_run_def listener_step_def
      onceListening_def callback_def arg_def)

text \<open>
  C3, as the specification words it, has the pooled connections ended only after the
  listening socket reported closed. With one pooled connection, \<^verbatim>\<open>close\<close> calls
  \<^verbatim>\<open>con.end()\<close> although the net server has not emitted \<^verbatim>\<open>close\<close>.
\<close>

theorem close_ends_before_closed_counterexample:
  "case listen 3212 ''10.0.0.1'' 0 of
     Inl e \<Rightarrow> False
   | Inr s0 \<Rightarrow>
       \<not> ends_after_closed False
           (history (listener_run [Listening, Connection 7, Call_close True] s0))"
  by (simp add: listen_def valid_port_def listener_run_def listener_step_def
      onceListening_def callback_def onConnection_history onConnection_connections
      close_fields)

text \<open>
  C3. In any state, a call of the listener's \<^verbatim>\<open>close\<close> calls the net server's own
  \<^verbatim>\<open>close\<close> with the callback it was given (which stops the accepting of connections) and,
  in the same call, without waiting for the net server's \<^verbatim>\<open>close\<close> event, calls
  \<^verbatim>\<open>end()\<close> once on every connection that is in the pool, in pool order; the pool itself
  is left as it is. When the net server later emits \<^verbatim>\<open>close\<close>, the listener does nothing.
\<close>

theorem close_ends_pool_at_once:
  "history (listener_step (Call_close cb) s) =
     history s @ Occurred (Call_close cb) # Did (Net_close cb) #
       map (\<lambda>con. Did (Socket_end con)) (connections s) \<and>
   connections (listener_step (Call_close cb) s) = connections s \<and>
   history (listener_step Server_closed s) = history s @ [Occurred Server_closed] \<and>
   connections (listener_step Server_closed s) = connections s"
  by (simp add: listener_step_def close_fields)

text \<open>
  C6. After any list of events following a \<^verbatim>\<open>listen\<close> that returned its server, the
  members of the pool are exactly the sockets that are open (handed in by a
  \<^verbatim>\<open>connection\<close> event and not closed since). A \<^verbatim>\<open>connection\<close> event appends its socket
  to the pool, a socket's \<^verbatim>\<open>close\<close> event removes the socket from the pool, and when
  every accepted socket is a new one, no socket is in the pool twice.
\<close>

theorem pool_is_open_sockets:
  assumes "listen port hostname server = Inr s0"
  shows "set (connections (listener_run evs s0)) = open_sockets evs \<and>
   connections (listener_run (evs @ [Connection con]) s0) =
     connections (listener_run evs s0) @ [con] \<and>
   connections (listener_run (evs @ [Socket_closed con]) s0) =
     removeAll con (connections (listener_run evs s0)) \<and>
   (accepts_new {} evs \<longrightarrow> distinct (connections (listener_run evs s0)))"
proof -
  note start = listen_pool [OF assms]
  have inv: "close_once (listener_run evs s0) = connections (listener_run evs s0)"
    and pool: "set (connections (listener_run evs s0)) = open_sockets evs"
    using listener_run_pool [OF start(1), of evs]
    by (simp_all add: start(2) open_sockets_def)
  have acc: "connections (listener_run (evs @ [Connection con]) s0) =
      connections (listener_run evs s0) @ [con]"
    by (simp add: listener_run_snoc listener_step_def onConnection_connections)
  have rem: "connections (listener_run (evs @ [Socket_closed con]) s0) =
      removeAll con (connections (listener_run evs s0))"
    using inv by (simp add: listener_run_snoc listener_step_def socket_closed_registered)
  have dist: "distinct (connections (listener_run evs s0))" if "accepts_new {} evs"
    using listener_run_distinct [OF start(1), of evs] that
    by (simp add: start(2))
  from pool acc rem dist show ?thesis by blast
qed

theorem pool_is_open_sockets_witness:
  "accepts_new {}
     [Listening, Connection 4, Connection 5, Socket_closed 4, Call_close True,
      Connection 6, Socket_closed 4] \<and>
   open_sockets
     [Listening, Connection 4, Connection 5, Socket_closed 4, Call_close True,
      Connection 6, Socket_closed 4] = {5, 6} \<and>
   (case listen 3212 ''10.0.0.1'' 0 of
      Inl e \<Rightarrow> False
    | Inr s0 \<Rightarrow>
        set (connections (listener_run
          [Listening, Connection 4, Connection 5, Socket_closed 4, Call_close True,
           Connection 6, Socket_closed 4] s0)) = {5, 6} \<and>
        distinct (connections (listener_run
          [Listening, Connection 4, Connection 5, Socket_closed 4, Call_close True,
           Connection 6, Socket_closed 4] s0)))"
proof -
  let ?evs = "[Listening, Connection 4, Connection 5, Socket_closed 4, Call_close True,
      Connection 6, Socket_closed 4]"
  obtain s0 where l: "listen 3212 ''10.0.0.1'' 0 = Inr s0"
    by (simp add: listen_def valid_port_def)
  have new: "accepts_new {} ?evs" by simp
  have opened: "open_sockets ?evs = {5, 6}" by (auto simp: open_sockets_def)
  from pool_is_open_sockets [OF l, of ?evs] new opened
  show ?thesis by (simp add: l)
qed

text \<open>
  C7. Every \<^verbatim>\<open>connection\<close> event registers one more one-time \<^verbatim>\<open>close\<close> handler for the
  accepted socket. The handler \<^verbatim>\<open>rpcConnectionClosed\<close> removes that socket from the pool and
  leaves every other entry where it is; when the socket is not in the pool the handler
  changes nothing. A socket's \<^verbatim>\<open>close\<close> event runs the handler once for each
  registration of that socket, so that a socket accepted and then closed is taken out of
  the pool again, and in every state reached from \<^verbatim>\<open>listen\<close> the closed socket is no
  longer in the pool. The event uses up the handlers registered for the socket, so a
  second \<^verbatim>\<open>close\<close> event of the same socket changes nothing.
\<close>

theorem close_handler_removes_once:
  "close_once (listener_step (Connection con) s) = close_once s @ [con] \<and>
   connections (rpcConnectionClosed con s) = remove1 con (connections s) \<and>
   (con \<notin> set (connections s) \<longrightarrow> rpcConnectionClosed con s = s) \<and>
   con \<notin> set (close_once (socket_closed con s)) \<and>
   socket_closed con (socket_closed con s) = socket_closed con s \<and>
   connections (listener_step (Socket_closed con) s) =
     (remove1 con ^^ count_list (close_once s) con) (connections s) \<and>
   (con \<notin> set (close_once s) \<longrightarrow>
      connections (listener_step (Socket_closed con) (listener_step (Connection con) s)) =
        remove1 con (connections s @ [con])) \<and>
   (con \<notin> set (close_once s) \<and> con \<notin> set (connections s) \<longrightarrow>
      connections (listener_step (Socket_closed con) (listener_step (Connection con) s)) =
        connections s) \<and>
   (listen port hostname server = Inr s0 \<longrightarrow>
      con \<notin> set (connections (listener_run (evs @ [Socket_closed con]) s0)) \<and>
      (\<forall>other. other \<noteq> con \<longrightarrow>
         count_list (connections (listener_run (evs @ [Socket_closed con]) s0)) other =
         count_list (connections (listener_run evs s0)) other))"
proof -
  have reg: "close_once (listener_step (Connection con) s) = close_once s @ [con]"
    by (simp add: listener_step_def onConnection_close_once)
  have rem: "connections (rpcConnectionClosed con s) = remove1 con (connections s)"
    by (simp add: rpcConnectionClosed_remove1)
  have absent: "rpcConnectionClosed con s = s" if "con \<notin> set (connections s)"
    using that by (simp add: rpcConnectionClosed_remove1 remove1_idem)
  have gone: "con \<notin> set (close_once (socket_closed con s))"
    by (simp add: socket_closed_close_once)
  have once: "socket_closed con (socket_closed con s) = socket_closed con s"
  proof -
    have "count_list (close_once (socket_closed con s)) con = 0"
      by (simp add: socket_closed_close_once count_list_0_iff)
    then show ?thesis
      by (simp add: socket_closed_def [of con "socket_closed con s"] socket_closed_close_once)
  qed
  have runs: "connections (listener_step (Socket_closed con) s) =
      (remove1 con ^^ count_list (close_once s) con) (connections s)"
    by (simp add: listener_step_def socket_closed_connections)
  have accepted: "connections (listener_step (Socket_closed con)
        (listener_step (Connection con) s)) = remove1 con (connections s @ [con])"
    if "con \<notin> set (close_once s)"
  proof -
    from that have "count_list (close_once s) con = 0"
      by (simp add: count_list_0_iff)
    then show ?thesis
      by (simp add: listener_step_def socket_closed_connections onConnection_close_once
          onConnection_connections)
  qed
  have restored: "connections (listener_step (Socket_closed con)
        (listener_step (Connection con) s)) = connections s"
    if "con \<notin> set (close_once s) \<and> con \<notin> set (connections s)"
    using that accepted by (simp add: remove1_append remove1_idem)
  have reached: "con \<notin> set (connections (listener_run (evs @ [Socket_closed con]) s0)) \<and>
      (\<forall>other. other \<noteq> con \<longrightarrow>
         count_list (connections (listener_run (evs @ [Socket_closed con]) s0)) other =
         count_list (connections (listener_run evs s0)) other)"
    if l: "listen port hostname server = Inr s0"
  proof -
    have inv: "close_once (listener_run evs s0) = connections (listener_run evs s0)"
      using listener_run_pool [OF listen_pool(1) [OF l], of evs] by simp
    have "connections (listener_run (evs @ [Socket_closed con]) s0) =
        removeAll con (connections (listener_run evs s0))"
      using inv by (simp add: listener_run_snoc listener_step_def socket_closed_registered)
    moreover have "count_list (removeAll con xs) other = count_list xs other"
      if "other \<noteq> con" for xs :: "obj list" and other
      using that by (induction xs) auto
    ultimately show ?thesis by simp
  qed
  from reg rem absent gone once runs accepted restored reached show ?thesis by blast
qed

theorem close_handler_witness:
  "case listen 3212 ''10.0.0.1'' 0 of
     Inl e \<Rightarrow> False
   | Inr s0 \<Rightarrow>
       connections (listener_run [Connection 5, Connection 6] s0) = [5, 6] \<and>
       rpcConnectionClosed 4 (listener_run [Connection 5, Connection 6] s0) =
         listener_run [Connection 5, Connection 6] s0 \<and>
       connections (rpcConnectionClosed 5 (listener_run [Connection 5, Connection 6] s0)) =
         [6] \<and>
       connections (listener_step (Socket_closed 5)
         (listener_run [Connection 5, Connection 6] s0)) = [6] \<and>
       connections (listener_step (Socket_closed 7) (listener_step (Connection 7)
         (listener_run [Connection 5, Connection 6] s0))) = [5, 6] \<and>
       5 \<notin> set (connections (listener_run ([Connection 5, Connection 6] @ [Socket_closed 5])
         s0))"
proof -
  obtain s0 where l: "listen 3212 ''10.0.0.1'' 0 = Inr s0"
    by (simp add: listen_def valid_port_def)
  let ?s = "listener_run [Connection 5, Connection 6] s0"
  have pool: "connections ?s = [5, 6]" and regs: "close_once ?s = [5, 6]"
    by (simp_all add: listener_run_def listener_step_def onConnection_connections
        onConnection_close_once listen_returned [OF l])
  have absent: "4 \<notin> set (connections ?s)"
    and fresh: "7 \<notin> set (close_once ?s) \<and> 7 \<notin> set (connections ?s)"
    by (simp_all add: pool regs)
  note thm4 = close_handler_removes_once [of 4 ?s 3212 "''10.0.0.1''" 0 s0 "[]"]
  note thm5 = close_handler_removes_once
    [of 5 ?s 3212 "''10.0.0.1''" 0 s0 "[Connection 5, Connection 6]"]
  note thm7 = close_handler_removes_once [of 7 ?s 3212 "''10.0.0.1''" 0 s0 "[]"]
  from thm4 absent have a: "rpcConnectionClosed 4 ?s = ?s" by blast
  from thm5 have b: "connections (rpcConnectionClosed 5 ?s) = remove1 5 (connections ?s)"
    by blast
  from thm5 have c: "connections (listener_step (Socket_closed 5) ?s) =
      (remove1 5 ^^ count_list (close_once ?s) 5) (connections ?s)"
    by blast
  from thm7 fresh have d: "connections (listener_step (Socket_closed 7)
      (listener_step (Connection 7) ?s)) = connections ?s"
    by blast
  from thm5 l have e: "5 \<notin> set (connections
      (listener_run ([Connection 5, Connection 6] @ [Socket_closed 5]) s0))"
    by blast
  from a b c d e show ?thesis
    unfolding pool regs by (simp add: l pool)
qed

end
